theory Spec2Isabelle
  imports Main "HOL-Library.Multiset" "HOL-Library.Sublist"
begin

section \<open>Strings\<close>

text \<open>
  A JavaScript string is a sequence of code units; it is modelled as a \<open>string\<close>, one
  \<open>char\<close> per code unit, which covers the strings whose code units a \<open>char\<close> can
  hold. The program only ever tells ASCII characters apart (the slash, the dot, the
  quotes, letters and digits of its patterns), every other code unit is compared for
  equality only.
\<close>

text \<open>\<open>s.startsWith(p)\<close>\<close>

fun startsWith :: "string \<Rightarrow> string \<Rightarrow> bool" where
  "startsWith s [] = True"
| "startsWith [] (p # ps) = False"
| "startsWith (c # cs) (p # ps) = (c = p \<and> startsWith cs ps)"

text \<open>\<open>s.endsWith(p)\<close>\<close>

definition endsWith :: "string \<Rightarrow> string \<Rightarrow> bool" where
  "endsWith s p = startsWith (rev s) (rev p)"

text \<open>\<open>s.includes(t)\<close>: \<open>t\<close> occurs in \<open>s\<close> as a contiguous substring.\<close>

fun includesStr :: "string \<Rightarrow> string \<Rightarrow> bool" where
  "includesStr [] t = (t = [])"
| "includesStr (c # cs) t = (startsWith (c # cs) t \<or> includesStr cs t)"

definition upperAZ :: string where
  "upperAZ = ''ABCDEFGHIJKLMNOPQRSTUVWXYZ''"

definition lowerAZ :: string where
  "lowerAZ = ''abcdefghijklmnopqrstuvwxyz''"

definition digits09 :: string where
  "digits09 = ''0123456789''"

text \<open>
  \<open>s.toLowerCase()\<close> on the ASCII letters. The results are only tested for membership
  in sets of lower-case ASCII extensions, and no code unit outside ASCII lower-cases to a
  letter of those extensions.
\<close>

definition toLowerChar :: "char \<Rightarrow> char" where
  "toLowerChar c = (case map_of (zip upperAZ lowerAZ) c of Some d \<Rightarrow> d | None \<Rightarrow> c)"

definition toLowerCase :: "string \<Rightarrow> string" where
  "toLowerCase s = map toLowerChar s"

text \<open>
  Element \<open>[1]\<close> of \<open>s.split(sep)\<close> for a non-empty separator: the text between the
  first occurrence of \<open>sep\<close> and the next one (or the end); \<open>None\<close> stands for
  \<open>undefined\<close>, when \<open>sep\<close> does not occur.
\<close>

fun afterFirst :: "string \<Rightarrow> string \<Rightarrow> string option" where
  "afterFirst sep [] = (if sep = [] then Some [] else None)"
| "afterFirst sep (c # cs) =
     (if startsWith (c # cs) sep then Some (drop (length sep) (c # cs))
      else afterFirst sep cs)"

fun beforeFirst :: "string \<Rightarrow> string \<Rightarrow> string" where
  "beforeFirst sep [] = []"
| "beforeFirst sep (c # cs) =
     (if startsWith (c # cs) sep then [] else c # beforeFirst sep cs)"

definition split_1 :: "string \<Rightarrow> string \<Rightarrow> string option" where
  "split_1 s sep = (case afterFirst sep s of None \<Rightarrow> None
                    | Some rest \<Rightarrow> Some (beforeFirst sep rest))"

section \<open>Regular expressions\<close>

text \<open>
  The patterns of the program use literals, character classes, the dot, alternation,
  greedy \<open>*\<close> and \<open>+\<close> and the end anchor. \<open>rmatch r s\<close> lists, in the order a
  backtracking matcher tries them, the inputs left after a match of \<open>r\<close> at the start
  of \<open>s\<close>; its head is the match the engine reports. The dot matches every code unit
  but a line terminator (line feed and carriage return are the two a \<open>char\<close> can
  hold). An iteration of \<open>*\<close> that consumes nothing is rejected, as the language
  defines.
\<close>

datatype rx =
    Lit string
  | Cls "char list"
  | NCls "char list"
  | Dot
  | Eos
  | Seq rx rx
  | Alt rx rx
  | Star rx

fun rmatch :: "rx \<Rightarrow> string \<Rightarrow> string list" where
  "rmatch (Lit l) s = (if startsWith s l then [drop (length l) s] else [])"
| "rmatch (Cls cs) s = (case s of [] \<Rightarrow> [] | c # t \<Rightarrow> if c \<in> set cs then [t] else [])"
| "rmatch (NCls cs) s = (case s of [] \<Rightarrow> [] | c # t \<Rightarrow> if c \<in> set cs then [] else [t])"
| "rmatch Dot s =
     (case s of [] \<Rightarrow> [] | c # t \<Rightarrow> if c = CHR 0x0A \<or> c = CHR 0x0D then [] else [t])"
| "rmatch Eos s = (if s = [] then [[]] else [])"
| "rmatch (Seq a b) s = concat (map (rmatch b) (rmatch a s))"
| "rmatch (Alt a b) s = rmatch a s @ rmatch b s"
| "rmatch (Star a) s =
     concat (map (\<lambda>s'. if length s' < length s then rmatch (Star a) s' else [])
                 (rmatch a s)) @ [s]"

definition Plus :: "rx \<Rightarrow> rx" where
  "Plus a = Seq a (Star a)"

fun seqs :: "rx list \<Rightarrow> rx" where
  "seqs [] = Lit []"
| "seqs [r] = r"
| "seqs (r # rs) = Seq r (seqs rs)"

text \<open>\<open>/^r/.test(s)\<close>: a pattern anchored at the start is tried at position 0 only.\<close>

definition rx_test_bos :: "rx \<Rightarrow> string \<Rightarrow> bool" where
  "rx_test_bos r s = (rmatch r s \<noteq> [])"

text \<open>\<open>/r/.test(s)\<close>: some position of \<open>s\<close> (its end included) starts a match.\<close>

fun rx_test :: "rx \<Rightarrow> string \<Rightarrow> bool" where
  "rx_test r [] = (rmatch r [] \<noteq> [])"
| "rx_test r (c # cs) = (rmatch r (c # cs) \<noteq> [] \<or> rx_test r cs)"

text \<open>\<open>s.replace(/r/, "")\<close>: the leftmost match is removed, if there is one.\<close>

fun rx_remove_first :: "rx \<Rightarrow> string \<Rightarrow> string" where
  "rx_remove_first r [] = []"
| "rx_remove_first r (c # cs) =
     (case rmatch r (c # cs) of rest # _ \<Rightarrow> rest | [] \<Rightarrow> c # rx_remove_first r cs)"

text \<open>
  \<open>s.match(/r/g)\<close>: the matched texts from left to right, each search resuming where
  the last match ended (one code unit further after an empty match). \<open>null\<close>, the
  result when nothing matches, is the empty list.
\<close>

fun rx_match_all :: "rx \<Rightarrow> string \<Rightarrow> string list" where
  "rx_match_all r [] = (case rmatch r [] of [] \<Rightarrow> [] | _ # _ \<Rightarrow> [[]])"
| "rx_match_all r (c # cs) =
     (case rmatch r (c # cs) of
        [] \<Rightarrow> rx_match_all r cs
      | rest # _ \<Rightarrow>
          take (length (c # cs) - length rest) (c # cs) #
          (if length rest < length (c # cs)
           then rx_match_all r rest else rx_match_all r cs))"

section \<open>Paths\<close>

text \<open>
  The functions of the runtime's \<open>path\<close> module, for POSIX paths (the separator is
  the slash).
\<close>

definition isSlash :: "char \<Rightarrow> bool" where
  "isSlash c = (c = CHR ''/'')"

definition stripTrailingSlashes :: "string \<Rightarrow> string" where
  "stripTrailingSlashes p = rev (dropWhile isSlash (rev p))"

text \<open>\<open>basename(path)\<close>: the last component, trailing slashes ignored.\<close>

definition basename :: "string \<Rightarrow> string" where
  "basename p = rev (takeWhile (\<lambda>c. \<not> isSlash c) (dropWhile isSlash (rev p)))"

text \<open>
  \<open>basename(path, suffix)\<close>: the last component without \<open>suffix\<close>, unless the
  component is the suffix itself. When the component is only the tail of a longer
  \<open>suffix\<close>, the runtime returns the component with the slashes that follow it.
\<close>

definition basename_ext :: "string \<Rightarrow> string \<Rightarrow> string" where
  "basename_ext p ext =
     (if ext = [] \<or> length p < length ext then basename p
      else if ext = p then []
      else let comp = basename p in
        if comp = ext then comp
        else if endsWith comp ext then take (length comp - length ext) comp
        else if endsWith ext comp
          then drop (length (stripTrailingSlashes p) - length comp) p
        else comp)"

text \<open>
  \<open>extname(path)\<close>: the last component from its last dot on; empty when it has no
  dot, when the dot is its first character, or when it is \<open>..\<close>.
\<close>

definition extname :: "string \<Rightarrow> string" where
  "extname p =
     (let comp = basename p;
          tail = rev (takeWhile (\<lambda>c. c \<noteq> CHR ''.'') (rev comp))
      in if CHR ''.'' \<notin> set comp then []
         else if length comp = Suc (length tail) then []
         else if comp = ''..'' then []
         else CHR ''.'' # tail)"

text \<open>
  \<open>dirname(path)\<close>: the path up to the slash before its last component; the first
  character is never taken for that slash.
\<close>

definition dirname :: "string \<Rightarrow> string" where
  "dirname p =
     (case p of
        [] \<Rightarrow> ''.''
      | c # cs \<Rightarrow>
          (let rest = dropWhile (\<lambda>x. \<not> isSlash x) (dropWhile isSlash (rev cs))
           in if rest = [] then (if isSlash c then ''/'' else ''.'')
              else if isSlash c \<and> length rest = 1 then ''//''
              else take (length rest) p))"

fun splitSlash :: "string \<Rightarrow> string \<Rightarrow> string list" where
  "splitSlash acc [] = [rev acc]"
| "splitSlash acc (c # cs) =
     (if isSlash c then rev acc # splitSlash [] cs else splitSlash (c # acc) cs)"

fun joinSlash :: "string list \<Rightarrow> string" where
  "joinSlash [] = []"
| "joinSlash [x] = x"
| "joinSlash (x # xs) = x @ ''/'' @ joinSlash xs"

text \<open>
  The segment walk of \<open>normalize\<close>: empty segments and \<open>.\<close> are dropped, \<open>..\<close>
  removes the segment before it, and is kept only above the start of a relative path.
  \<open>st\<close> is the reversed list of the segments kept.
\<close>

fun normalizeString :: "bool \<Rightarrow> string list \<Rightarrow> string list \<Rightarrow> string list" where
  "normalizeString allowAbove st [] = rev st"
| "normalizeString allowAbove st (seg # segs) =
     (if seg = [] \<or> seg = ''.'' then normalizeString allowAbove st segs
      else if seg = ''..'' then
        (case st of
           [] \<Rightarrow> normalizeString allowAbove (if allowAbove then [''..''] else []) segs
         | seg0 # st' \<Rightarrow>
             if seg0 = ''..''
             then normalizeString allowAbove (if allowAbove then ''..'' # st else st) segs
             else normalizeString allowAbove st' segs)
      else normalizeString allowAbove (seg # st) segs)"

definition normalize :: "string \<Rightarrow> string" where
  "normalize p =
     (if p = [] then ''.''
      else let isAbsolute = isSlash (hd p);
               trailingSeparator = isSlash (last p);
               r = joinSlash (normalizeString (\<not> isAbsolute) [] (splitSlash [] p))
           in if r = [] then (if isAbsolute then ''/''
                              else if trailingSeparator then ''./'' else ''.'')
              else (if isAbsolute then ''/'' else []) @ r @
                   (if trailingSeparator then ''/'' else []))"

text \<open>\<open>join(a, b)\<close>: the non-empty arguments, joined by a slash and normalised.\<close>

definition join :: "string \<Rightarrow> string \<Rightarrow> string" where
  "join a b =
     (if a = [] \<and> b = [] then ''.''
      else if a = [] then normalize b
      else if b = [] then normalize a
      else normalize (a @ ''/'' @ b))"

section \<open>The pattern tables\<close>

datatype FileType = Media | Component | Util | Type | Hook | Context | Style | Api | Page

definition criticalFiles :: "string list" where
  "criticalFiles =
     [''layout.tsx'', ''page.tsx'', ''loading.tsx'', ''error.tsx'', ''not-found.tsx'',
      ''route.ts'', ''middleware.ts'', ''robots.ts'', ''sitemap.ts'', ''manifest.ts'',
      ''global.d.ts'', ''globals.css'', ''analytics.ts'', ''metadata.ts'', ''schema.js'']"

definition ignoredPaths :: "string list" where
  "ignoredPaths =
     [''node_modules'', ''.next'', ''dist'', ''.git'', ''.husky'',
      ''public/chunks'', ''public/static'']"

definition mediaExtensions :: "string list" where
  "mediaExtensions =
     [''.jpg'', ''.jpeg'', ''.png'', ''.gif'', ''.svg'', ''.webp'', ''.ico'', ''.mp4'',
      ''.webm'', ''.m4s'', ''.mp3'', ''.wav'', ''.ogg'']"

definition codeExtensions :: "string list" where
  "codeExtensions =
     [''.ts'', ''.tsx'', ''.js'', ''.jsx'', ''.css'', ''.scss'', ''.sass'', ''.less'']"

text \<open>The three quote characters of the API patterns: \<open>'\<close>, \<open>"\<close> and the backtick.\<close>

definition quotes :: string where
  "quotes = [CHR 0x27, CHR 0x22, CHR 0x60]"

text \<open>
  \<open>apiPatterns\<close>:
  \<^verbatim>\<open>fetch\(['"`]\/api\/([^'"`]+)['"`]\)\<close>,
  \<^verbatim>\<open>axios\.[a-z]+\(['"`]\/api\/([^'"`]+)['"`]\)\<close> and
  \<^verbatim>\<open>\/api\/([a-zA-Z0-9-_/]+)\<close>, all global.
\<close>

definition apiPatterns :: "rx list" where
  "apiPatterns =
     [seqs [Lit ''fetch('', Cls quotes, Lit ''/api/'', Plus (NCls quotes), Cls quotes,
            Lit '')''],
      seqs [Lit ''axios.'', Plus (Cls lowerAZ), Lit ''('', Cls quotes, Lit ''/api/'',
            Plus (NCls quotes), Cls quotes, Lit '')''],
      seqs [Lit ''/api/'', Plus (Cls (lowerAZ @ upperAZ @ digits09 @ ''-_/''))]]"

section \<open>The classifier\<close>

definition isNextJsSystemFile :: "string \<Rightarrow> bool" where
  "isNextJsSystemFile filePath =
     (let fileName = basename filePath;
          dirName = basename (dirname filePath)
      in if fileName \<in> set criticalFiles then True
         else if includesStr filePath ''/api/'' then True
         else if dirName = ''app'' \<and> startsWith fileName ''page.'' then True
         else False)"

text \<open>The patterns of \<open>getFileType\<close>, in the order it tries them.\<close>

definition rxComponent :: rx where
  "rxComponent =
     seqs [Cls upperAZ, Star Dot, Lit ''.'', Alt (Lit ''tsx'') (Lit ''jsx''), Eos]"

definition rxHook :: rx where
  "rxHook =
     seqs [Lit ''use'', Cls upperAZ, Star Dot, Lit ''.'', Alt (Lit ''ts'') (Lit ''tsx''),
           Eos]"

definition rxContext :: rx where
  "rxContext =
     seqs [Alt (Lit ''Context'') (Lit ''Provider''), Lit ''.'',
           Alt (Lit ''ts'') (Lit ''tsx''), Eos]"

definition rxTypeDecl :: rx where
  "rxTypeDecl = seqs [Lit ''.d.ts'', Eos]"

definition rxStyle :: rx where
  "rxStyle =
     seqs [Lit ''.'',
           Alt (Lit ''css'') (Alt (Lit ''scss'') (Alt (Lit ''sass'') (Lit ''less''))),
           Eos]"

definition getFileType :: "string \<Rightarrow> FileType" where
  "getFileType filePath =
     (let fileName = basename filePath;
          ext = toLowerCase (extname filePath)
      in if includesStr filePath ''/api/'' then Api
         else if includesStr filePath ''/app/'' \<and> startsWith fileName ''page.'' then Page
         else if ext \<in> set mediaExtensions then Media
         else if rx_test_bos rxComponent fileName then Component
         else if rx_test_bos rxHook fileName then Hook
         else if rx_test rxContext fileName then Context
         else if rx_test rxTypeDecl fileName then Type
         else if rx_test rxStyle fileName then Style
         else Util)"

section \<open>The usage resolver\<close>

text \<open>
  The index is the \<open>Map\<close> from path to record, as the list of its entries in insertion
  order: that is the order in which the loop of \<open>isFileUsed\<close> visits them.
\<close>

record ImportInfo =
  imports' :: "string set"
  exports :: "string set"
  content :: string
  filePath :: string

type_synonym importMap = "(string \<times> ImportInfo) list"

text \<open>
  \<open>file.split("/api/")[1]?.replace(/\.[jt]s$/, "")\<close>
\<close>

definition rxJsTs :: rx where
  "rxJsTs = seqs [Lit ''.'', Cls ''jt'', Lit ''s'', Eos]"

definition apiPathOf :: "string \<Rightarrow> string option" where
  "apiPathOf file = map_option (rx_remove_first rxJsTs) (split_1 file ''/api/'')"

text \<open>
  The test of the API branch on one other file: the path after \<open>/api/\<close> is defined
  and not empty, and some pattern has a match in the content that contains it.
\<close>

definition apiMatch :: "string \<Rightarrow> string \<Rightarrow> bool" where
  "apiMatch file otherContent =
     (case apiPathOf file of
        None \<Rightarrow> False
      | Some apiPath \<Rightarrow>
          apiPath \<noteq> [] \<and>
          list_ex (\<lambda>pattern. list_ex (\<lambda>m. includesStr m apiPath)
                                      (rx_match_all pattern otherContent))
                  apiPatterns)"

text \<open>
  The loop over the entries of the index; \<open>True\<close> is \<open>isUsed = true; break\<close>, the end
  of the list leaves \<open>isUsed\<close> false.
\<close>

fun scanOthers :: "string \<Rightarrow> importMap \<Rightarrow> bool" where
  "scanOthers file [] = False"
| "scanOthers file ((otherFile, otherInfo) # rest) =
     (if otherFile = file then scanOthers file rest
      else if includesStr (content otherInfo) (basename_ext file (extname file)) then True
      else if includesStr file ''/api/'' \<and> apiMatch file (content otherInfo) then True
      else if toLowerCase (extname file) \<in> set mediaExtensions \<and>
              includesStr (content otherInfo) (basename file) then True
      else scanOthers file rest)"

definition isFileUsed :: "string \<Rightarrow> importMap \<Rightarrow> bool" where
  "isFileUsed file importMap =
     (if isNextJsSystemFile file then True else scanOthers file importMap)"

text \<open>
  The other files whose content a call of \<open>isFileUsed\<close> reads, in the order it reads
  them: none for a system file, and otherwise every entry the loop reaches.
\<close>

fun scanReads :: "string \<Rightarrow> importMap \<Rightarrow> string list" where
  "scanReads file [] = []"
| "scanReads file ((otherFile, otherInfo) # rest) =
     (if otherFile = file then scanReads file rest
      else if includesStr (content otherInfo) (basename_ext file (extname file))
        then [otherFile]
      else if includesStr file ''/api/'' \<and> apiMatch file (content otherInfo)
        then [otherFile]
      else if toLowerCase (extname file) \<in> set mediaExtensions \<and>
              includesStr (content otherInfo) (basename file) then [otherFile]
      else otherFile # scanReads file rest)"

definition isFileUsed_reads :: "string \<Rightarrow> importMap \<Rightarrow> string list" where
  "isFileUsed_reads file importMap =
     (if isNextJsSystemFile file then [] else scanReads file importMap)"

text \<open>
  \<open>isFileUsed\<close> with the API branch of its loop deleted, to compare with the
  function as it is written.
\<close>

fun scanOthers_noApi :: "string \<Rightarrow> importMap \<Rightarrow> bool" where
  "scanOthers_noApi file [] = False"
| "scanOthers_noApi file ((otherFile, otherInfo) # rest) =
     (if otherFile = file then scanOthers_noApi file rest
      else if includesStr (content otherInfo) (basename_ext file (extname file)) then True
      else if toLowerCase (extname file) \<in> set mediaExtensions \<and>
              includesStr (content otherInfo) (basename file) then True
      else scanOthers_noApi file rest)"

definition isFileUsed_noApi :: "string \<Rightarrow> importMap \<Rightarrow> bool" where
  "isFileUsed_noApi file importMap =
     (if isNextJsSystemFile file then True else scanOthers_noApi file importMap)"

text \<open>The three rules of the loop of \<open>isFileUsed\<close> on the content of one other file.\<close>

definition referencedIn :: "string \<Rightarrow> string \<Rightarrow> bool" where
  "referencedIn f otherContent =
     (includesStr otherContent (basename_ext f (extname f)) \<or>
      (includesStr f ''/api/'' \<and> apiMatch f otherContent) \<or>
      (toLowerCase (extname f) \<in> set mediaExtensions \<and>
       includesStr otherContent (basename f)))"

section \<open>The file system and the enumeration\<close>

text \<open>
  What the enumeration can find at a path: a regular file; a directory with its entries
  in the order \<open>readdirSync\<close> lists them; a directory that cannot be listed
  (\<open>readdirSync\<close> throws); or nothing that \<open>statSync\<close> can resolve (no such path,
  or a link to nothing, which a directory still lists).
\<close>

datatype fsnode =
    File
  | Dir "(string \<times> fsnode) list"
  | DirUnreadable
  | Missing

text \<open>
  \<open>getAllFiles\<close> on the node found at \<open>dir\<close>, and its loop over the entries of a
  directory. An exception of \<open>readdirSync\<close> or \<open>statSync\<close> leaves the loop for the
  \<open>catch\<close> around it, and the results collected so far are returned.
\<close>

fun getAllFiles :: "string \<Rightarrow> fsnode \<Rightarrow> string list"
  and getAllFiles_loop :: "string \<Rightarrow> (string \<times> fsnode) list \<Rightarrow> string list" where
  "getAllFiles dir Missing = []"
| "getAllFiles dir File = []"
| "getAllFiles dir DirUnreadable = []"
| "getAllFiles dir (Dir items) = getAllFiles_loop dir items"
| "getAllFiles_loop dir [] = []"
| "getAllFiles_loop dir ((item, node) # rest) =
     (if item \<in> set ignoredPaths then getAllFiles_loop dir rest
      else case node of
          Missing \<Rightarrow> []
        | File \<Rightarrow> join dir item # getAllFiles_loop dir rest
        | DirUnreadable \<Rightarrow> getAllFiles (join dir item) DirUnreadable @ getAllFiles_loop dir rest
        | Dir sub \<Rightarrow> getAllFiles (join dir item) (Dir sub) @ getAllFiles_loop dir rest)"

section \<open>The run\<close>

record UnusedFile =
  path :: string
  size' :: nat
  type' :: FileType

text \<open>\<open>importMap.set(k, v)\<close>: a key already present keeps its place.\<close>

fun mapSet :: "string \<Rightarrow> ImportInfo \<Rightarrow> importMap \<Rightarrow> importMap" where
  "mapSet k v [] = [(k, v)]"
| "mapSet k v ((k', v') # m) = (if k' = k then (k, v) # m else (k', v') # mapSet k v m)"

text \<open>
  The first loop of \<open>findUnusedFiles\<close>. \<open>readFileSync f\<close> is \<open>None\<close> when the read
  throws. \<open>findImports\<close> is a pure function of the content whose result is stored
  and never read again; it is a parameter here, and the report is the same for every
  such function (\<open>findUnusedFiles_any_findImports\<close> below).
\<close>

definition recordOf :: "(string \<Rightarrow> string set) \<Rightarrow> string \<Rightarrow> string \<Rightarrow> ImportInfo" where
  "recordOf findImports file text =
     \<lparr> imports' = findImports text, exports = {}, content = text, filePath = file \<rparr>"

fun buildIndex ::
  "(string \<Rightarrow> string set) \<Rightarrow> (string \<Rightarrow> string option) \<Rightarrow> importMap \<Rightarrow> string list
   \<Rightarrow> importMap" where
  "buildIndex findImports readFileSync m [] = m"
| "buildIndex findImports readFileSync m (file # rest) =
     (case readFileSync file of
        Some text \<Rightarrow>
          buildIndex findImports readFileSync
            (mapSet file (recordOf findImports file text) m) rest
      | None \<Rightarrow> buildIndex findImports readFileSync m rest)"

text \<open>
  The second loop: the source files judged unused, each with the size \<open>statSync\<close>
  gives; \<open>statSync f\<close> is \<open>None\<close> when it throws.
\<close>

fun unusedSources :: "(string \<Rightarrow> nat option) \<Rightarrow> importMap \<Rightarrow> string list \<Rightarrow> UnusedFile list" where
  "unusedSources statSync m [] = []"
| "unusedSources statSync m (file # rest) =
     (if \<not> isFileUsed file m then
        (case statSync file of
           Some sz \<Rightarrow> \<lparr> path = file, size' = sz, type' = getFileType file \<rparr> #
                      unusedSources statSync m rest
         | None \<Rightarrow> unusedSources statSync m rest)
      else unusedSources statSync m rest)"

text \<open>The inner loop of the third loop: some record's content holds \<open>fileName\<close>.\<close>

fun contentMentions :: "string \<Rightarrow> importMap \<Rightarrow> bool" where
  "contentMentions fileName [] = False"
| "contentMentions fileName ((k, info) # rest) =
     (if includesStr (content info) fileName then True else contentMentions fileName rest)"

definition alwaysUsedAsset :: "string \<Rightarrow> bool" where
  "alwaysUsedAsset fileName =
     (fileName = ''robots.txt'' \<or> fileName = ''sitemap.xml'' \<or>
      includesStr fileName ''segment_'' \<or> endsWith fileName ''.m4s'')"

text \<open>The third loop: the public files reported, all as media.\<close>

fun unusedPublic :: "(string \<Rightarrow> nat option) \<Rightarrow> importMap \<Rightarrow> string list \<Rightarrow> UnusedFile list" where
  "unusedPublic statSync m [] = []"
| "unusedPublic statSync m (file # rest) =
     (let fileName = basename file in
      if alwaysUsedAsset fileName then unusedPublic statSync m rest
      else if \<not> contentMentions fileName m then
        (case statSync file of
           Some sz \<Rightarrow> \<lparr> path = file, size' = sz, type' = Media \<rparr> #
                      unusedPublic statSync m rest
         | None \<Rightarrow> unusedPublic statSync m rest)
      else unusedPublic statSync m rest)"

text \<open>
  What a run sees: the working directory, the nodes at its \<open>src\<close> and \<open>public\<close>
  directories when they are enumerated, and the results of the later reads and stats
  (a file can vanish between the enumeration and them).
\<close>

record env =
  cwd :: string
  srcNode :: fsnode
  publicNode :: fsnode
  readFileSync :: "string \<Rightarrow> string option"
  statSync :: "string \<Rightarrow> nat option"

definition sourceFilesOf :: "env \<Rightarrow> string list" where
  "sourceFilesOf e =
     filter (\<lambda>file. toLowerCase (extname file) \<in> set codeExtensions)
            (getAllFiles (join (cwd e) ''src'') (srcNode e))"

definition publicFilesOf :: "env \<Rightarrow> string list" where
  "publicFilesOf e = getAllFiles (join (cwd e) ''public'') (publicNode e)"

definition indexOf :: "(string \<Rightarrow> string set) \<Rightarrow> env \<Rightarrow> importMap" where
  "indexOf findImports e = buildIndex findImports (readFileSync e) [] (sourceFilesOf e)"

text \<open>
  \<open>findUnusedFiles\<close>: the list \<open>unusedFiles\<close> and \<open>totalSize\<close> as they stand when
  the report is printed.
\<close>

definition findUnusedFiles :: "(string \<Rightarrow> string set) \<Rightarrow> env \<Rightarrow> UnusedFile list \<times> nat" where
  "findUnusedFiles findImports e =
     (let importMap = indexOf findImports e;
          unusedFiles = unusedSources (statSync e) importMap (sourceFilesOf e) @
                        unusedPublic (statSync e) importMap (publicFilesOf e)
      in (unusedFiles, sum_list (map size' unusedFiles)))"

section \<open>First match over a rule table\<close>

text \<open>
  The classification as the specification words it: the rules in the order api, page,
  media, component, hook, context, type, style; the first rule that holds gives the
  category, and \<open>util\<close> is the category when none holds.
\<close>

definition categoryRules :: "(FileType \<times> (string \<Rightarrow> bool)) list" where
  "categoryRules =
     [(Api, \<lambda>p. includesStr p ''/api/''),
      (Page, \<lambda>p. includesStr p ''/app/'' \<and> startsWith (basename p) ''page.''),
      (Media, \<lambda>p. toLowerCase (extname p) \<in> set mediaExtensions),
      (Component, \<lambda>p. rx_test_bos rxComponent (basename p)),
      (Hook, \<lambda>p. rx_test_bos rxHook (basename p)),
      (Context, \<lambda>p. rx_test rxContext (basename p)),
      (Type, \<lambda>p. rx_test rxTypeDecl (basename p)),
      (Style, \<lambda>p. rx_test rxStyle (basename p))]"

fun firstMatch :: "(FileType \<times> (string \<Rightarrow> bool)) list \<Rightarrow> string \<Rightarrow> FileType" where
  "firstMatch [] p = Util"
| "firstMatch ((c, holds) # rules) p = (if holds p then c else firstMatch rules p)"

section \<open>Example inputs\<close>

definition noImports :: "string \<Rightarrow> string set" where
  "noImports text = {}"

text \<open>An index of one file, \<open>App.tsx\<close>, that mentions \<open>Button\<close> and \<open>logo\<close>.\<close>

definition appIndex :: importMap where
  "appIndex =
     [(''/proj/src/App.tsx'',
       recordOf noImports ''/proj/src/App.tsx'' ''import Button from ./Button; logo'')]"

text \<open>A tree whose only source file cannot be read, though \<open>statSync\<close> succeeds.\<close>

definition env_unreadable :: env where
  "env_unreadable =
     \<lparr> cwd = ''/proj'', srcNode = Dir [(''a.ts'', File)], publicNode = Missing,
       readFileSync = (\<lambda>f. None), statSync = (\<lambda>f. Some 10) \<rparr>"

text \<open>
  A tree with \<open>App.tsx\<close> as above, an unreferenced source file \<open>segment_tree.ts\<close>, a
  source file \<open>gone.ts\<close> that has vanished by the time it is read, and the public
  assets \<open>logo.png\<close> and \<open>robots.txt\<close>.
\<close>

definition env_app :: env where
  "env_app =
     \<lparr> cwd = ''/proj'',
       srcNode = Dir [(''App.tsx'', File), (''segment_tree.ts'', File), (''gone.ts'', File)],
       publicNode = Dir [(''logo.png'', File), (''robots.txt'', File)],
       readFileSync = (\<lambda>f. if f = ''/proj/src/App.tsx''
                              then Some ''import Button from ./Button; logo''
                              else if f = ''/proj/src/gone.ts'' then None
                              else Some ''export {}''),
       statSync = (\<lambda>f. if f = ''/proj/src/gone.ts'' then None else Some 10) \<rparr>"

text \<open>A public directory with the two sub-directories named in \<open>ignoredPaths\<close>.\<close>

definition publicTree :: fsnode where
  "publicTree =
     Dir [(''chunks'', Dir [(''main.js'', File)]),
          (''static'', Dir [(''app.js'', File)]),
          (''node_modules'', Dir [(''dep.js'', File)]),
          (''logo.png'', File)]"

section \<open>Facts about strings and the loop\<close>

lemma startsWith_prefix: "startsWith s p \<longleftrightarrow> prefix p s"
  by (induction s p rule: startsWith.induct) auto

lemma includesStr_sublist: "includesStr s t \<longleftrightarrow> sublist t s"
proof (induction s)
  case Nil
  then show ?case by simp
next
  case (Cons c cs)
  then show ?case
    by (cases t) (auto simp: startsWith_prefix sublist_Cons_right)
qed

lemma scanOthers_iff:
  "scanOthers f m \<longleftrightarrow> (\<exists>(k, i) \<in> set m. k \<noteq> f \<and> referencedIn f (content i))"
  by (induction m) (auto simp: referencedIn_def split: if_splits)

lemma not_system_no_api: "\<not> isNextJsSystemFile f \<Longrightarrow> \<not> includesStr f ''/api/''"
  by (auto simp: isNextJsSystemFile_def Let_def split: if_splits)

lemma scanOthers_noApi_eq:
  "\<not> includesStr f ''/api/'' \<Longrightarrow> scanOthers_noApi f m = scanOthers f m"
  by (induction m) (auto split: if_splits)

lemma scanOthers_content:
  "map (\<lambda>(k, i). (k, content i)) m1 = map (\<lambda>(k, i). (k, content i)) m2
   \<Longrightarrow> scanOthers f m1 = scanOthers f m2"
proof (induction m1 arbitrary: m2)
  case Nil
  then show ?case by simp
next
  case (Cons e m1)
  then obtain e' m2' where m2: "m2 = e' # m2'" by (cases m2) auto
  obtain k i where e: "e = (k, i)" by (cases e)
  obtain k' i' where e': "e' = (k', i')" by (cases e')
  from Cons.prems m2 e e' have "k = k'" "content i = content i'"
    and tl: "map (\<lambda>(k, i). (k, content i)) m1 = map (\<lambda>(k, i). (k, content i)) m2'"
    by auto
  with Cons.IH[OF tl] show ?case by (simp add: m2 e e')
qed

text \<open>
  The reads recorded by \<open>scanReads\<close> are entries for other files; the loop stops at
  the first one that a rule accepts, and reads them all when none does.
\<close>

lemma scanReads_others: "set (scanReads f m) \<subseteq> fst ` set m - {f}"
  by (induction m) (auto split: if_splits)

lemma scanReads_all:
  "\<not> scanOthers f m \<Longrightarrow> scanReads f m = filter (\<lambda>k. k \<noteq> f) (map fst m)"
  by (induction m) (auto split: if_splits)

lemma scanReads_hit:
  "scanOthers f m \<Longrightarrow>
   \<exists>i. (last (scanReads f m), i) \<in> set m \<and> last (scanReads f m) \<noteq> f \<and>
       referencedIn f (content i)"
proof (induction m)
  case Nil
  then show ?case by simp
next
  case (Cons e m)
  obtain k i where e: "e = (k, i)" by (cases e)
  show ?case
  proof (cases "k \<noteq> f \<and> referencedIn f (content i)")
    case True
    then have "scanReads f (e # m) = [k]"
      by (auto simp: e referencedIn_def)
    with True show ?thesis by (auto simp: e)
  next
    case False
    with Cons.prems have s: "scanOthers f m"
      by (auto simp: e referencedIn_def split: if_splits)
    then obtain i' where i': "(last (scanReads f m), i') \<in> set m"
        "last (scanReads f m) \<noteq> f" "referencedIn f (content i')"
      using Cons.IH by blast
    from s have ne: "scanReads f m \<noteq> []"
      by (induction m) (auto split: if_splits)
    from False have "scanReads f (e # m) = scanReads f m \<or>
                     scanReads f (e # m) = k # scanReads f m"
      by (auto simp: e referencedIn_def)
    with ne have "last (scanReads f (e # m)) = last (scanReads f m)" by auto
    with i' show ?thesis by auto
  qed
qed

section \<open>Facts about paths and patterns\<close>

text \<open>
  In the program the suffix given to \<open>basename\<close> is always the extension of the same
  path, and the result is the last component without that extension.
\<close>

lemma basename_no_slash: "CHR ''/'' \<notin> set (basename p)"
proof
  assume "CHR ''/'' \<in> set (basename p)"
  then have "CHR ''/'' \<in> set (takeWhile (\<lambda>c. \<not> isSlash c) (dropWhile isSlash (rev p)))"
    by (simp add: basename_def)
  then have "\<not> isSlash (CHR ''/'')" by (rule set_takeWhileD[THEN conjunct2])
  then show False by (simp add: isSlash_def)
qed

lemma basename_idem: "CHR ''/'' \<notin> set s \<Longrightarrow> basename s = s"
proof -
  assume n: "CHR ''/'' \<notin> set s"
  then have a: "\<forall>c \<in> set (rev s). \<not> isSlash c" by (auto simp: isSlash_def)
  then have d: "dropWhile isSlash (rev s) = rev s"
    by (cases "rev s") auto
  from a have t: "takeWhile (\<lambda>c. \<not> isSlash c) (rev s) = rev s"
    by (simp add: takeWhile_eq_all_conv)
  show ?thesis unfolding basename_def d t by simp
qed

lemma length_basename: "length (basename p) \<le> length p"
proof -
  have "length (takeWhile (\<lambda>c. \<not> isSlash c) (dropWhile isSlash (rev p)))
          \<le> length (dropWhile isSlash (rev p))"
    by (rule length_takeWhile_le)
  also have "\<dots> \<le> length (rev p)" by (rule length_dropWhile_le)
  finally show ?thesis by (simp add: basename_def)
qed

lemma extname_shape:
  "extname p = [] \<or>
   (\<exists>pre tail. pre \<noteq> [] \<and> basename p = pre @ CHR ''.'' # tail \<and>
                extname p = CHR ''.'' # tail)"
proof (cases "extname p = []")
  case True
  then show ?thesis by simp
next
  case False
  define comp where "comp = basename p"
  define t where "t = takeWhile (\<lambda>c. c \<noteq> CHR ''.'') (rev comp)"
  define d where "d = dropWhile (\<lambda>c. c \<noteq> CHR ''.'') (rev comp)"
  from False have dot: "CHR ''.'' \<in> set comp"
    and len: "length comp \<noteq> Suc (length (rev t))"
    and ext: "extname p = CHR ''.'' # rev t"
    unfolding comp_def t_def by (auto simp: extname_def Let_def split: if_splits)
  from dot have dne: "d \<noteq> []" by (simp add: d_def)
  then have "\<not> (hd d \<noteq> CHR ''.'')"
    unfolding d_def by (rule hd_dropWhile)
  with dne obtain r where d': "d = CHR ''.'' # r" by (cases d) auto
  have "rev comp = t @ d" by (simp add: t_def d_def)
  then have "rev (rev comp) = rev (t @ d)" by (rule arg_cong)
  with d' have c: "comp = rev r @ CHR ''.'' # rev t" by simp
  then have "length comp = length (rev r @ CHR ''.'' # rev t)" by (rule arg_cong)
  with len have "rev r \<noteq> []" by auto
  with c ext show ?thesis unfolding comp_def by blast
qed

lemma basename_ext_extname:
  "basename_ext p (extname p) = take (length (basename p) - length (extname p)) (basename p)"
proof -
  from extname_shape[of p] show ?thesis
  proof
    assume "extname p = []"
    then show ?thesis by (simp add: basename_ext_def)
  next
    assume "\<exists>pre tail. pre \<noteq> [] \<and> basename p = pre @ CHR ''.'' # tail \<and>
                extname p = CHR ''.'' # tail"
    then obtain pre tail where pre: "pre \<noteq> []"
      and c: "basename p = pre @ CHR ''.'' # tail" and e: "extname p = CHR ''.'' # tail"
      by blast
    let ?ext = "CHR ''.'' # tail"
    have l1: "length ?ext < length (basename p)" using pre c by simp
    with length_basename[of p] have l2: "\<not> length p < length ?ext" by simp
    have ne: "?ext \<noteq> p"
    proof
      assume eq: "?ext = p"
      have "CHR ''/'' \<notin> set (basename p)" by (rule basename_no_slash)
      with c have "CHR ''/'' \<notin> set ?ext" by auto
      then have "basename ?ext = ?ext" by (rule basename_idem)
      with eq have "basename p = ?ext" by simp
      with l1 show False by simp
    qed
    from l1 have ne2: "basename p \<noteq> ?ext" by auto
    have ew: "endsWith (basename p) ?ext"
      by (simp add: endsWith_def startsWith_prefix c)
    from l2 ne ne2 ew show ?thesis
      by (simp add: basename_ext_def e Let_def del: startsWith.simps)
  qed
qed

text \<open>
  What a match leaves is a suffix of the input, so the length tests in \<open>rmatch\<close> and
  \<open>rx_match_all\<close> only reject empty matches.
\<close>

lemma rmatch_suffix: "r \<in> set (rmatch x s) \<Longrightarrow> suffix r s"
proof (induction x s arbitrary: r rule: rmatch.induct)
  case (1 l s)
  then have "r = drop (length l) s" by (simp split: if_splits)
  then show ?case by (simp add: suffix_drop)
next
  case (2 cs s)
  then obtain c where "s = c # r" by (cases s) (simp_all split: if_splits)
  then show ?case by (simp add: suffix_Cons)
next
  case (3 cs s)
  then obtain c where "s = c # r" by (cases s) (simp_all split: if_splits)
  then show ?case by (simp add: suffix_Cons)
next
  case (4 s)
  then obtain c where "s = c # r" by (cases s) (simp_all split: if_splits)
  then show ?case by (simp add: suffix_Cons)
next
  case (5 s)
  then show ?case by (simp split: if_splits)
next
  case (6 a b s)
  from "6.prems" obtain m where m: "m \<in> set (rmatch a s)" and r: "r \<in> set (rmatch b m)"
    by auto
  have "suffix r m" using m r by (rule "6.IH"(2))
  moreover have "suffix m s" using m by (rule "6.IH"(1))
  ultimately show ?case by (rule suffix_order.trans)
next
  case (7 a b s)
  from "7.prems" have "r \<in> set (rmatch a s) \<or> r \<in> set (rmatch b s)" by simp
  then show ?case using "7.IH" by blast
next
  case (8 a s)
  from "8.prems" have "r \<in> set (concat (map (\<lambda>s'. if length s' < length s
      then rmatch (Star a) s' else []) (rmatch a s)) @ [s])"
    by (subst (asm) rmatch.simps(8))
  then have "r = s \<or> (\<exists>m \<in> set (rmatch a s). length m < length s \<and>
      r \<in> set (rmatch (Star a) m))"
    by (auto simp del: rmatch.simps split: if_splits)
  then show ?case
  proof
    assume "r = s"
    then show ?thesis by simp
  next
    assume "\<exists>m \<in> set (rmatch a s). length m < length s \<and> r \<in> set (rmatch (Star a) m)"
    then obtain m where m: "m \<in> set (rmatch a s)" and l: "length m < length s"
      and r: "r \<in> set (rmatch (Star a) m)" by blast
    have "suffix r m" using m l r by (rule "8.IH"(2))
    moreover have "suffix m s" using m by (rule "8.IH"(1))
    ultimately show ?thesis by (rule suffix_order.trans)
  qed
qed

section \<open>Facts about the index\<close>

lemma mapSet_keys: "fst ` set (mapSet k v m) = insert k (fst ` set m)"
proof (induction m)
  case Nil
  show ?case by simp
next
  case (Cons e m)
  obtain k' v' where e: "e = (k', v')" by (cases e)
  show ?case
    using Cons.IH by (cases "k' = k") (simp_all add: e insert_commute)
qed

lemma mapSet_set:
  "distinct (map fst m) \<Longrightarrow>
   distinct (map fst (mapSet k v m)) \<and>
   set (mapSet k v m) = insert (k, v) {e \<in> set m. fst e \<noteq> k}"
proof (induction m)
  case Nil
  then show ?case by simp
next
  case (Cons e m)
  obtain k' v' where e: "e = (k', v')" by (cases e)
  from Cons.prems have d: "distinct (map fst m)" and n: "k' \<notin> fst ` set m"
    by (simp_all add: e)
  show ?case
  proof (cases "k' = k")
    case True
    with n have "{x \<in> set m. fst x \<noteq> k} = set m" by force
    with True Cons.prems show ?thesis by (auto simp: e)
  next
    case False
    from Cons.IH[OF d] have ih: "distinct (map fst (mapSet k v m))"
      "set (mapSet k v m) = insert (k, v) {e \<in> set m. fst e \<noteq> k}" by blast+
    have "fst ` set (mapSet k v m) = insert k (fst ` set m)"
      by (rule mapSet_keys)
    with n False have "k' \<notin> fst ` set (mapSet k v m)" by simp
    with False ih show ?thesis by (auto simp: e)
  qed
qed

lemma buildIndex_keys:
  "fst ` set (buildIndex fi rd m fs) = fst ` set m \<union> {f \<in> set fs. rd f \<noteq> None}"
  by (induction fs arbitrary: m) (auto simp: mapSet_keys split: option.splits)

lemma buildIndex_set:
  "distinct (map fst m) \<Longrightarrow>
   distinct (map fst (buildIndex fi rd m fs)) \<and>
   set (buildIndex fi rd m fs) =
     {e \<in> set m. \<not> (fst e \<in> set fs \<and> rd (fst e) \<noteq> None)} \<union>
     {(f, recordOf fi f t) | f t. f \<in> set fs \<and> rd f = Some t}"
proof (induction fs arbitrary: m)
  case Nil
  then show ?case by simp
next
  case (Cons x fs)
  show ?case
  proof (cases "rd x")
    case None
    with Cons.IH[OF Cons.prems] show ?thesis by auto
  next
    case (Some t)
    let ?m = "mapSet x (recordOf fi x t) m"
    from mapSet_set[OF Cons.prems, of x "recordOf fi x t"]
    have d: "distinct (map fst ?m)"
      and s: "set ?m = insert (x, recordOf fi x t) {e \<in> set m. fst e \<noteq> x}"
      by blast+
    from Cons.IH[OF d] have ih1: "distinct (map fst (buildIndex fi rd ?m fs))"
      and ih2: "set (buildIndex fi rd ?m fs) =
        {e \<in> set ?m. \<not> (fst e \<in> set fs \<and> rd (fst e) \<noteq> None)} \<union>
        {(f, recordOf fi f t) | f t. f \<in> set fs \<and> rd f = Some t}"
      by blast+
    have "set (buildIndex fi rd ?m fs) =
        {e \<in> set m. \<not> (fst e \<in> set (x # fs) \<and> rd (fst e) \<noteq> None)} \<union>
        {(f, recordOf fi f t) | f t. f \<in> set (x # fs) \<and> rd f = Some t}"
      unfolding ih2 s using Some by auto
    with ih1 Some show ?thesis by simp
  qed
qed

lemma buildIndex_perm:
  "set fs1 = set fs2 \<Longrightarrow> set (buildIndex fi rd [] fs1) = set (buildIndex fi rd [] fs2)"
  using buildIndex_set[of "[]" fi rd fs1] buildIndex_set[of "[]" fi rd fs2] by simp

lemma indexOf_keys:
  "fst ` set (indexOf fi e) = {f \<in> set (sourceFilesOf e). readFileSync e f \<noteq> None}"
  by (simp add: indexOf_def buildIndex_keys)

lemma mapSet_content:
  "map (\<lambda>(k, i). (k, content i)) m1 = map (\<lambda>(k, i). (k, content i)) m2 \<Longrightarrow>
   content v1 = content v2 \<Longrightarrow>
   map (\<lambda>(k, i). (k, content i)) (mapSet x v1 m1) =
   map (\<lambda>(k, i). (k, content i)) (mapSet x v2 m2)"
proof (induction m1 arbitrary: m2)
  case Nil
  then show ?case by simp
next
  case (Cons e m1)
  then obtain e' m2' where m2: "m2 = e' # m2'" by (cases m2) auto
  obtain k i where e: "e = (k, i)" by (cases e)
  obtain k' i' where e': "e' = (k', i')" by (cases e')
  from Cons.prems(1) m2 e e' have kk: "k = k'" "content i = content i'"
    and tl: "map (\<lambda>(k, i). (k, content i)) m1 = map (\<lambda>(k, i). (k, content i)) m2'"
    by auto
  from Cons.IH[OF tl Cons.prems(2)] kk tl Cons.prems(2)
  show ?case by (simp add: m2 e e')
qed

lemma buildIndex_content:
  "map (\<lambda>(k, i). (k, content i)) m1 = map (\<lambda>(k, i). (k, content i)) m2 \<Longrightarrow>
   map (\<lambda>(k, i). (k, content i)) (buildIndex fi1 rd m1 fs) =
   map (\<lambda>(k, i). (k, content i)) (buildIndex fi2 rd m2 fs)"
proof (induction fs arbitrary: m1 m2)
  case Nil
  then show ?case by simp
next
  case (Cons x fs)
  show ?case
  proof (cases "rd x")
    case None
    with Cons.IH[OF Cons.prems] show ?thesis by simp
  next
    case (Some t)
    have "map (\<lambda>(k, i). (k, content i)) (mapSet x (recordOf fi1 x t) m1) =
          map (\<lambda>(k, i). (k, content i)) (mapSet x (recordOf fi2 x t) m2)"
      by (rule mapSet_content[OF Cons.prems]) (simp add: recordOf_def)
    from Cons.IH[OF this] Some show ?thesis by simp
  qed
qed

section \<open>The verdicts\<close>

text \<open>
  Claim C1. A path that meets a rule for system files (its base name is one of the
  reserved names, or it contains \<open>/api/\<close>, or its name starts with \<open>page.\<close> and its
  directory is named \<open>app\<close>) is used whatever the index holds, the empty index
  included, and \<open>isFileUsed\<close> reads the content of no other file.
\<close>

theorem isFileUsed_system_file:
  "basename f \<in> set criticalFiles \<or> includesStr f ''/api/'' \<or>
   (basename (dirname f) = ''app'' \<and> startsWith (basename f) ''page.'')
   \<Longrightarrow> isFileUsed f m \<and> isFileUsed_reads f m = []"
  by (auto simp: isFileUsed_def isFileUsed_reads_def isNextJsSystemFile_def Let_def)

theorem isFileUsed_system_file_witness:
  "(isFileUsed ''/proj/src/app/layout.tsx'' [] \<and>
    isFileUsed_reads ''/proj/src/app/layout.tsx'' [] = []) \<and>
   (isFileUsed ''/proj/src/pages/api/hello.ts'' appIndex \<and>
    isFileUsed_reads ''/proj/src/pages/api/hello.ts'' appIndex = []) \<and>
   (isFileUsed ''/proj/src/app/page.jsx'' appIndex \<and>
    isFileUsed_reads ''/proj/src/app/page.jsx'' appIndex = [])"
proof -
  have h1: "basename ''/proj/src/app/layout.tsx'' \<in> set criticalFiles"
    by code_simp
  have h2: "includesStr ''/proj/src/pages/api/hello.ts'' ''/api/''"
    by code_simp
  have h3: "basename (dirname ''/proj/src/app/page.jsx'') = ''app'' \<and>
            startsWith (basename ''/proj/src/app/page.jsx'') ''page.''"
    by code_simp
  show ?thesis
    using isFileUsed_system_file[of "''/proj/src/app/layout.tsx''" "[]"]
          isFileUsed_system_file[of "''/proj/src/pages/api/hello.ts''" appIndex]
          isFileUsed_system_file[of "''/proj/src/app/page.jsx''" appIndex]
          h1 h2 h3
    by blast
qed

text \<open>
  Claim C2. If an entry of the index for another file \<open>B\<close> has a content that contains
  the base name of \<open>A\<close> without its extension, \<open>A\<close> is used. If \<open>A\<close> is not a system
  file and no entry for another file contains that name, passes the API test, or (for a
  media file) contains the full base name, \<open>A\<close> is not used.
\<close>

theorem isFileUsed_base_name:
  "((B, infoB) \<in> set m \<and> B \<noteq> A \<and>
    includesStr (content infoB) (basename_ext A (extname A)) \<longrightarrow> isFileUsed A m) \<and>
   (\<not> isNextJsSystemFile A \<and>
    (\<forall>(B, infoB) \<in> set m. B \<noteq> A \<longrightarrow>
       \<not> includesStr (content infoB) (basename_ext A (extname A)) \<and>
       \<not> (includesStr A ''/api/'' \<and> apiMatch A (content infoB)) \<and>
       (toLowerCase (extname A) \<in> set mediaExtensions \<longrightarrow>
          \<not> includesStr (content infoB) (basename A)))
    \<longrightarrow> \<not> isFileUsed A m)"
proof (intro conjI impI)
  assume "(B, infoB) \<in> set m \<and> B \<noteq> A \<and>
          includesStr (content infoB) (basename_ext A (extname A))"
  then have "\<exists>(k, i) \<in> set m. k \<noteq> A \<and> referencedIn A (content i)"
    by (auto simp: referencedIn_def)
  then show "isFileUsed A m"
    by (simp add: isFileUsed_def scanOthers_iff)
next
  assume h: "\<not> isNextJsSystemFile A \<and>
    (\<forall>(B, infoB) \<in> set m. B \<noteq> A \<longrightarrow>
       \<not> includesStr (content infoB) (basename_ext A (extname A)) \<and>
       \<not> (includesStr A ''/api/'' \<and> apiMatch A (content infoB)) \<and>
       (toLowerCase (extname A) \<in> set mediaExtensions \<longrightarrow>
          \<not> includesStr (content infoB) (basename A)))"
  then have "\<not> (\<exists>(k, i) \<in> set m. k \<noteq> A \<and> referencedIn A (content i))"
    by (auto simp: referencedIn_def)
  with h show "\<not> isFileUsed A m"
    by (simp add: isFileUsed_def scanOthers_iff)
qed

theorem isFileUsed_base_name_witness:
  "isFileUsed ''/proj/src/Button.tsx'' appIndex \<and>
   \<not> isFileUsed ''/proj/src/orphan.ts'' appIndex"
proof -
  let ?B = "''/proj/src/App.tsx''"
  let ?i = "recordOf noImports ''/proj/src/App.tsx'' ''import Button from ./Button; logo''"
  have a: "(?B, ?i) \<in> set appIndex \<and> ?B \<noteq> ''/proj/src/Button.tsx'' \<and>
           includesStr (content ?i)
             (basename_ext ''/proj/src/Button.tsx'' (extname ''/proj/src/Button.tsx''))"
    by code_simp
  have b1: "\<not> isNextJsSystemFile ''/proj/src/orphan.ts''"
    by code_simp
  have b2: "\<not> includesStr (content ?i)
               (basename_ext ''/proj/src/orphan.ts'' (extname ''/proj/src/orphan.ts''))"
    by code_simp
  have b3: "\<not> includesStr ''/proj/src/orphan.ts'' ''/api/''"
    by code_simp
  have b4: "toLowerCase (extname ''/proj/src/orphan.ts'') \<notin> set mediaExtensions"
    by code_simp
  have b: "\<not> isNextJsSystemFile ''/proj/src/orphan.ts'' \<and>
    (\<forall>(B, infoB) \<in> set appIndex. B \<noteq> ''/proj/src/orphan.ts'' \<longrightarrow>
       \<not> includesStr (content infoB)
           (basename_ext ''/proj/src/orphan.ts'' (extname ''/proj/src/orphan.ts'')) \<and>
       \<not> (includesStr ''/proj/src/orphan.ts'' ''/api/'' \<and>
          apiMatch ''/proj/src/orphan.ts'' (content infoB)) \<and>
       (toLowerCase (extname ''/proj/src/orphan.ts'') \<in> set mediaExtensions \<longrightarrow>
          \<not> includesStr (content infoB) (basename ''/proj/src/orphan.ts'')))"
    unfolding appIndex_def using b1 b2 b3 b4 by simp
  have 1: "isFileUsed ''/proj/src/Button.tsx'' appIndex"
    by (rule isFileUsed_base_name[THEN conjunct1, THEN mp, OF a])
  have 2: "\<not> isFileUsed ''/proj/src/orphan.ts'' appIndex"
    by (rule isFileUsed_base_name[THEN conjunct2, THEN mp, OF b])
  from 1 2 show ?thesis by (rule conjI)
qed

text \<open>
  Claim C6. Two indexes that hold the same entries in a different order give every
  file the same verdict, and so do the indexes built from two orders of one file list.
\<close>

theorem isFileUsed_permutation:
  "(mset m1 = mset m2 \<longrightarrow> isFileUsed f m1 = isFileUsed f m2) \<and>
   (mset fs1 = mset fs2 \<longrightarrow>
      isFileUsed f (buildIndex fi rd [] fs1) = isFileUsed f (buildIndex fi rd [] fs2))"
proof (intro conjI impI)
  assume "mset m1 = mset m2"
  then have "set m1 = set m2" by (rule mset_eq_setD)
  then show "isFileUsed f m1 = isFileUsed f m2"
    by (simp add: isFileUsed_def scanOthers_iff)
next
  assume "mset fs1 = mset fs2"
  then have "set fs1 = set fs2" by (rule mset_eq_setD)
  then have "set (buildIndex fi rd [] fs1) = set (buildIndex fi rd [] fs2)"
    by (rule buildIndex_perm)
  then show "isFileUsed f (buildIndex fi rd [] fs1) = isFileUsed f (buildIndex fi rd [] fs2)"
    by (simp add: isFileUsed_def scanOthers_iff)
qed

theorem isFileUsed_permutation_witness:
  "isFileUsed ''/proj/src/Button.tsx''
     ((''/proj/src/b.ts'', recordOf noImports ''/proj/src/b.ts'' ''export {}'') # appIndex) =
   isFileUsed ''/proj/src/Button.tsx''
     (appIndex @ [(''/proj/src/b.ts'', recordOf noImports ''/proj/src/b.ts'' ''export {}'')]) \<and>
   isFileUsed ''/proj/src/Button.tsx''
     (buildIndex noImports (readFileSync env_app) []
        [''/proj/src/App.tsx'', ''/proj/src/segment_tree.ts'']) =
   isFileUsed ''/proj/src/Button.tsx''
     (buildIndex noImports (readFileSync env_app) []
        [''/proj/src/segment_tree.ts'', ''/proj/src/App.tsx''])"
proof -
  let ?e = "(''/proj/src/b.ts'', recordOf noImports ''/proj/src/b.ts'' ''export {}'')"
  have h: "mset (?e # appIndex) = mset (appIndex @ [?e])"
    by simp
  have g: "mset [''/proj/src/App.tsx'', ''/proj/src/segment_tree.ts''] =
           mset [''/proj/src/segment_tree.ts'', ''/proj/src/App.tsx'']"
    by simp
  have 1: "isFileUsed ''/proj/src/Button.tsx'' (?e # appIndex) =
           isFileUsed ''/proj/src/Button.tsx'' (appIndex @ [?e])"
    by (rule isFileUsed_permutation[THEN conjunct1, THEN mp, OF h])
  have 2: "isFileUsed ''/proj/src/Button.tsx''
     (buildIndex noImports (readFileSync env_app) []
        [''/proj/src/App.tsx'', ''/proj/src/segment_tree.ts'']) =
   isFileUsed ''/proj/src/Button.tsx''
     (buildIndex noImports (readFileSync env_app) []
        [''/proj/src/segment_tree.ts'', ''/proj/src/App.tsx''])"
    by (rule isFileUsed_permutation[THEN conjunct2, THEN mp, OF g])
  from 1 2 show ?thesis by (rule conjI)
qed

text \<open>
  Claim C9. The API branch of the loop decides no verdict: \<open>isFileUsed\<close> equals the
  function without that branch, since a path that contains \<open>/api/\<close> is a system file
  and never reaches the loop.
\<close>

theorem isFileUsed_api_branch_dead: "isFileUsed = isFileUsed_noApi"
  by (intro ext)
     (simp add: isFileUsed_def isFileUsed_noApi_def scanOthers_noApi_eq not_system_no_api)

theorem isFileUsed_api_branch_dead_witness:
  "isFileUsed_noApi ''/proj/src/pages/api/hello.ts'' appIndex \<and>
   \<not> isFileUsed_noApi ''/proj/src/orphan.ts'' appIndex"
proof -
  have 1: "isFileUsed ''/proj/src/pages/api/hello.ts'' appIndex"
    by code_simp
  have 2: "\<not> isFileUsed ''/proj/src/orphan.ts'' appIndex"
    by code_simp
  have e: "isFileUsed_noApi x m = isFileUsed x m" for x m
    by (simp only: isFileUsed_api_branch_dead)
  from 1 2 show ?thesis
    unfolding e by (rule conjI)
qed

text \<open>
  Claim C10. Two indexes whose entries have the same paths and the same contents, and
  any import sets, give every file the same verdict.
\<close>

theorem isFileUsed_ignores_imports:
  "map (\<lambda>(k, i). (k, content i)) m1 = map (\<lambda>(k, i). (k, content i)) m2
   \<Longrightarrow> isFileUsed f m1 = isFileUsed f m2"
  using scanOthers_content[of m1 m2 f] by (simp add: isFileUsed_def)

theorem isFileUsed_ignores_imports_witness:
  "isFileUsed ''/proj/src/Button.tsx''
     [(''/proj/src/App.tsx'', recordOf noImports ''/proj/src/App.tsx'' ''<Button/>'')] =
   isFileUsed ''/proj/src/Button.tsx''
     [(''/proj/src/App.tsx'',
       recordOf (\<lambda>text. {''./Button''}) ''/proj/src/App.tsx'' ''<Button/>'')]"
proof -
  have h: "map (\<lambda>(k, i). (k, content i))
             [(''/proj/src/App.tsx'', recordOf noImports ''/proj/src/App.tsx'' ''<Button/>'')] =
           map (\<lambda>(k, i). (k, content i))
             [(''/proj/src/App.tsx'',
               recordOf (\<lambda>text. {''./Button''}) ''/proj/src/App.tsx'' ''<Button/>'')]"
    by (simp add: recordOf_def)
  show ?thesis
    by (rule isFileUsed_ignores_imports[OF h])
qed

section \<open>Facts about the classifier\<close>

lemma extname_of_basename:
  "basename p = ''useModal.tsx'' \<Longrightarrow> extname p = ''.tsx''"
  by (simp add: extname_def)

lemma useModal_rules:
  "\<not> startsWith ''useModal.tsx'' ''page.''"
  "toLowerCase ''.tsx'' \<notin> set mediaExtensions"
  "\<not> rx_test_bos rxComponent ''useModal.tsx''"
  "rx_test_bos rxHook ''useModal.tsx''"
  by code_simp+

text \<open>
  Claim C7, amended. \<open>getFileType\<close> is the first match over the rules in the order
  api, page, media, component, hook, context, type, style, with util when none holds, so
  every path gets one category. A file named \<open>useModal.tsx\<close> is never a component; it
  is a hook when its path does not contain \<open>/api/\<close>, and api when it does.
\<close>

theorem getFileType_first_match:
  "getFileType p = firstMatch categoryRules p \<and>
   map fst categoryRules = [Api, Page, Media, Component, Hook, Context, Type, Style] \<and>
   (basename p = ''useModal.tsx'' \<longrightarrow>
      getFileType p \<noteq> Component \<and>
      (\<not> includesStr p ''/api/'' \<longrightarrow> getFileType p = Hook) \<and>
      (includesStr p ''/api/'' \<longrightarrow> getFileType p = Api))"
proof (intro conjI impI)
  show "getFileType p = firstMatch categoryRules p"
    by (simp add: getFileType_def categoryRules_def Let_def)
  show "map fst categoryRules = [Api, Page, Media, Component, Hook, Context, Type, Style]"
    by (simp add: categoryRules_def)
next
  assume b: "basename p = ''useModal.tsx''"
  show "getFileType p \<noteq> Component"
    using useModal_rules by (simp add: getFileType_def Let_def b extname_of_basename[OF b])
next
  assume b: "basename p = ''useModal.tsx''" and n: "\<not> includesStr p ''/api/''"
  show "getFileType p = Hook"
    using useModal_rules n
    by (simp add: getFileType_def Let_def b extname_of_basename[OF b])
next
  assume "includesStr p ''/api/''"
  then show "getFileType p = Api"
    by (simp add: getFileType_def Let_def)
qed

theorem getFileType_first_match_witness:
  "(getFileType ''/proj/src/hooks/useModal.tsx'' = Hook \<and>
    getFileType ''/proj/src/hooks/useModal.tsx'' \<noteq> Component) \<and>
   (getFileType ''/proj/src/pages/api/useModal.tsx'' = Api \<and>
    getFileType ''/proj/src/pages/api/useModal.tsx'' \<noteq> Component)"
proof -
  have b: "basename ''/proj/src/hooks/useModal.tsx'' = ''useModal.tsx''"
    by code_simp
  have n: "\<not> includesStr ''/proj/src/hooks/useModal.tsx'' ''/api/''"
    by code_simp
  have b': "basename ''/proj/src/pages/api/useModal.tsx'' = ''useModal.tsx''"
    by code_simp
  have a': "includesStr ''/proj/src/pages/api/useModal.tsx'' ''/api/''"
    by code_simp
  from getFileType_first_match[of "''/proj/src/hooks/useModal.tsx''"] b n
  have 1: "getFileType ''/proj/src/hooks/useModal.tsx'' = Hook \<and>
           getFileType ''/proj/src/hooks/useModal.tsx'' \<noteq> Component"
    by blast
  from getFileType_first_match[of "''/proj/src/pages/api/useModal.tsx''"] b' a'
  have 2: "getFileType ''/proj/src/pages/api/useModal.tsx'' = Api \<and>
           getFileType ''/proj/src/pages/api/useModal.tsx'' \<noteq> Component"
    by blast
  from 1 2 show ?thesis by (rule conjI)
qed

text \<open>
  The claim C7 as stated fails: the file \<open>/proj/src/pages/api/useModal.tsx\<close> is named
  \<open>useModal.tsx\<close>, and its category is api, not hook.
\<close>

theorem useModal_under_api_not_hook:
  "basename ''/proj/src/pages/api/useModal.tsx'' = ''useModal.tsx'' \<and>
   getFileType ''/proj/src/pages/api/useModal.tsx'' = Api \<and>
   getFileType ''/proj/src/pages/api/useModal.tsx'' \<noteq> Hook"
  by code_simp

section \<open>Facts about the enumeration\<close>

lemma ignored_entry_names:
  assumes "CHR ''/'' \<notin> set item"
  shows "item \<in> set ignoredPaths \<longleftrightarrow>
         item \<in> set [''node_modules'', ''.next'', ''dist'', ''.git'', ''.husky'']"
proof -
  have "CHR ''/'' \<in> set ''public/chunks''" "CHR ''/'' \<in> set ''public/static''"
    by simp_all
  with assms have "item \<noteq> ''public/chunks''" "item \<noteq> ''public/static''"
    by blast+
  then show ?thesis
    by (simp add: ignoredPaths_def)
qed

text \<open>
  Claim C8. The enumeration compares each entry name with \<open>ignoredPaths\<close>; the two
  members \<open>public/chunks\<close> and \<open>public/static\<close> are no entry names, and the files
  under these two directories are enumerated, while \<open>node_modules\<close> is pruned.
\<close>

theorem getAllFiles_public_chunks:
  "getAllFiles ''/proj/public'' publicTree =
     [''/proj/public/chunks/main.js'', ''/proj/public/static/app.js'',
      ''/proj/public/logo.png'']"
  by code_simp

section \<open>Facts about the run\<close>

lemma unusedSources_iff:
  "u \<in> set (unusedSources st m fs) \<longleftrightarrow>
     path u \<in> set fs \<and> \<not> isFileUsed (path u) m \<and> st (path u) = Some (size' u) \<and>
     type' u = getFileType (path u)"
  by (induction fs) (auto split: option.splits)

lemma contentMentions_iff:
  "contentMentions n m \<longleftrightarrow> (\<exists>(k, info) \<in> set m. includesStr (content info) n)"
  by (induction m) (auto split: if_splits)

lemma unusedPublic_iff:
  "u \<in> set (unusedPublic st m fs) \<longleftrightarrow>
     path u \<in> set fs \<and> \<not> alwaysUsedAsset (basename (path u)) \<and>
     \<not> contentMentions (basename (path u)) m \<and> st (path u) = Some (size' u) \<and>
     type' u = Media"
  by (induction fs) (auto simp: Let_def split: option.splits)

lemma unusedSources_paths:
  "f \<in> path ` set (unusedSources st m fs) \<longleftrightarrow>
     f \<in> set fs \<and> \<not> isFileUsed f m \<and> st f \<noteq> None"
proof
  assume "f \<in> path ` set (unusedSources st m fs)"
  then show "f \<in> set fs \<and> \<not> isFileUsed f m \<and> st f \<noteq> None"
    by (auto simp: unusedSources_iff)
next
  assume h: "f \<in> set fs \<and> \<not> isFileUsed f m \<and> st f \<noteq> None"
  then obtain sz where "st f = Some sz" by auto
  with h have "\<lparr> path = f, size' = sz, type' = getFileType f \<rparr> \<in> set (unusedSources st m fs)"
    by (simp add: unusedSources_iff)
  then show "f \<in> path ` set (unusedSources st m fs)" by force
qed

lemma unusedPublic_paths:
  "f \<in> path ` set (unusedPublic st m fs) \<longleftrightarrow>
     f \<in> set fs \<and> \<not> alwaysUsedAsset (basename f) \<and>
     \<not> contentMentions (basename f) m \<and> st f \<noteq> None"
proof
  assume "f \<in> path ` set (unusedPublic st m fs)"
  then show "f \<in> set fs \<and> \<not> alwaysUsedAsset (basename f) \<and>
        \<not> contentMentions (basename f) m \<and> st f \<noteq> None"
    by (auto simp: unusedPublic_iff)
next
  assume h: "f \<in> set fs \<and> \<not> alwaysUsedAsset (basename f) \<and>
        \<not> contentMentions (basename f) m \<and> st f \<noteq> None"
  then obtain sz where "st f = Some sz" by auto
  with h have "\<lparr> path = f, size' = sz, type' = Media \<rparr> \<in> set (unusedPublic st m fs)"
    by (simp add: unusedPublic_iff)
  then show "f \<in> path ` set (unusedPublic st m fs)" by force
qed

lemma report_paths:
  "f \<in> path ` set (fst (findUnusedFiles fi e)) \<longleftrightarrow>
     (f \<in> set (sourceFilesOf e) \<and> \<not> isFileUsed f (indexOf fi e) \<and> statSync e f \<noteq> None) \<or>
     (f \<in> set (publicFilesOf e) \<and> \<not> alwaysUsedAsset (basename f) \<and>
      \<not> contentMentions (basename f) (indexOf fi e) \<and> statSync e f \<noteq> None)"
  by (simp add: findUnusedFiles_def Let_def image_Un unusedSources_paths unusedPublic_paths)

lemma extname_m4s:
  assumes "endsWith (basename p) ''.m4s''"
  shows "extname p = [] \<or> extname p = ''.m4s''"
proof -
  from assms obtain r where r: "rev (basename p) = ''s4m.'' @ r"
    by (auto simp: endsWith_def startsWith_prefix prefix_def)
  then have t: "rev (takeWhile (\<lambda>c. c \<noteq> CHR ''.'') (rev (basename p))) = ''m4s''"
    by simp
  show ?thesis
    unfolding extname_def Let_def t by simp
qed

lemma code_ext_names:
  assumes "toLowerCase (extname p) \<in> set codeExtensions"
  shows "basename p \<noteq> ''robots.txt'' \<and> basename p \<noteq> ''sitemap.xml'' \<and>
         \<not> endsWith (basename p) ''.m4s''"
proof (intro conjI notI)
  assume "basename p = ''robots.txt''"
  then have "extname p = ''.txt''" by (simp add: extname_def)
  with assms show False
    by (simp add: toLowerCase_def toLowerChar_def upperAZ_def lowerAZ_def codeExtensions_def)
next
  assume "basename p = ''sitemap.xml''"
  then have "extname p = ''.xml''" by (simp add: extname_def)
  with assms show False
    by (simp add: toLowerCase_def toLowerChar_def upperAZ_def lowerAZ_def codeExtensions_def)
next
  assume "endsWith (basename p) ''.m4s''"
  then have "extname p = [] \<or> extname p = ''.m4s''" by (rule extname_m4s)
  with assms show False
    by (auto simp: toLowerCase_def toLowerChar_def upperAZ_def lowerAZ_def codeExtensions_def)
qed

lemma sourceFilesOf_ext:
  "f \<in> set (sourceFilesOf e) \<Longrightarrow> toLowerCase (extname f) \<in> set codeExtensions"
  by (simp add: sourceFilesOf_def)

text \<open>
  The report is the same whatever \<open>findImports\<close> returns: the loops read the paths
  and the contents of the index only.
\<close>

lemma contentMentions_content:
  "map (\<lambda>(k, i). (k, content i)) m1 = map (\<lambda>(k, i). (k, content i)) m2
   \<Longrightarrow> contentMentions n m1 = contentMentions n m2"
proof (induction m1 arbitrary: m2)
  case Nil
  then show ?case by simp
next
  case (Cons e m1)
  then obtain e' m2' where m2: "m2 = e' # m2'" by (cases m2) auto
  obtain k i where e: "e = (k, i)" by (cases e)
  obtain k' i' where e': "e' = (k', i')" by (cases e')
  from Cons.prems m2 e e' have "content i = content i'"
    and tl: "map (\<lambda>(k, i). (k, content i)) m1 = map (\<lambda>(k, i). (k, content i)) m2'"
    by auto
  with Cons.IH[OF tl] show ?case by (simp add: m2 e e')
qed

lemma unusedSources_cong:
  "(\<And>f. isFileUsed f m1 = isFileUsed f m2) \<Longrightarrow>
   unusedSources st m1 fs = unusedSources st m2 fs"
  by (induction fs) (simp_all split: option.splits)

lemma unusedPublic_cong:
  "(\<And>n. contentMentions n m1 = contentMentions n m2) \<Longrightarrow>
   unusedPublic st m1 fs = unusedPublic st m2 fs"
  by (induction fs) (simp_all add: Let_def split: option.splits)

lemma findUnusedFiles_any_findImports:
  "findUnusedFiles fi1 e = findUnusedFiles fi2 e"
proof -
  have c: "map (\<lambda>(k, i). (k, content i)) (indexOf fi1 e) =
           map (\<lambda>(k, i). (k, content i)) (indexOf fi2 e)"
    unfolding indexOf_def by (rule buildIndex_content) simp
  have 1: "unusedSources (statSync e) (indexOf fi1 e) (sourceFilesOf e) =
           unusedSources (statSync e) (indexOf fi2 e) (sourceFilesOf e)"
    by (rule unusedSources_cong) (simp add: isFileUsed_def scanOthers_content[OF c])
  have 2: "unusedPublic (statSync e) (indexOf fi1 e) (publicFilesOf e) =
           unusedPublic (statSync e) (indexOf fi2 e) (publicFilesOf e)"
    by (rule unusedPublic_cong) (rule contentMentions_content[OF c])
  show ?thesis
    by (simp add: findUnusedFiles_def Let_def 1 2)
qed

text \<open>
  Claim C3, amended. A source file whose read fails is left out of the index, and a
  file whose stat fails is left out of the report; neither failure stops the run: every
  source file that can be read is indexed, and every source file that \<open>isFileUsed\<close>
  judges unused against the index and whose stat succeeds is reported.
\<close>

theorem read_and_stat_failures:
  "(readFileSync e f = None \<longrightarrow> f \<notin> fst ` set (indexOf fi e)) \<and>
   (statSync e f = None \<longrightarrow> f \<notin> path ` set (fst (findUnusedFiles fi e))) \<and>
   (f \<in> set (sourceFilesOf e) \<and> readFileSync e f \<noteq> None \<longrightarrow>
      f \<in> fst ` set (indexOf fi e)) \<and>
   (f \<in> set (sourceFilesOf e) \<and> \<not> isFileUsed f (indexOf fi e) \<and> statSync e f \<noteq> None \<longrightarrow>
      f \<in> path ` set (fst (findUnusedFiles fi e)))"
  by (simp add: indexOf_keys report_paths)

theorem read_and_stat_failures_witness:
  "''/proj/src/gone.ts'' \<notin> fst ` set (indexOf noImports env_app) \<and>
   ''/proj/src/gone.ts'' \<notin> path ` set (fst (findUnusedFiles noImports env_app)) \<and>
   ''/proj/src/App.tsx'' \<in> fst ` set (indexOf noImports env_app) \<and>
   ''/proj/src/App.tsx'' \<in> path ` set (fst (findUnusedFiles noImports env_app))"
proof -
  have 1: "readFileSync env_app ''/proj/src/gone.ts'' = None"
    by (simp add: env_app_def)
  have 2: "statSync env_app ''/proj/src/gone.ts'' = None"
    by (simp add: env_app_def)
  have 3: "''/proj/src/App.tsx'' \<in> set (sourceFilesOf env_app) \<and>
           readFileSync env_app ''/proj/src/App.tsx'' \<noteq> None"
    by code_simp
  have 4: "''/proj/src/App.tsx'' \<in> set (sourceFilesOf env_app) \<and>
           \<not> isFileUsed ''/proj/src/App.tsx'' (indexOf noImports env_app) \<and>
           statSync env_app ''/proj/src/App.tsx'' \<noteq> None"
    by code_simp
  from read_and_stat_failures[of env_app "''/proj/src/gone.ts''" noImports] 1
  have a: "''/proj/src/gone.ts'' \<notin> fst ` set (indexOf noImports env_app)" by blast
  from read_and_stat_failures[of env_app "''/proj/src/gone.ts''" noImports] 2
  have b: "''/proj/src/gone.ts'' \<notin> path ` set (fst (findUnusedFiles noImports env_app))"
    by blast
  from read_and_stat_failures[of env_app "''/proj/src/App.tsx''" noImports] 3 4
  have c: "''/proj/src/App.tsx'' \<in> fst ` set (indexOf noImports env_app) \<and>
           ''/proj/src/App.tsx'' \<in> path ` set (fst (findUnusedFiles noImports env_app))"
    by blast
  from a b c show ?thesis by blast
qed

text \<open>
  The claim C3 as stated fails: the only source file of \<open>env_unreadable\<close> cannot be
  read and is absent from the index, and it is the one file of the report.
\<close>

theorem unreadable_file_reported:
  "''/proj/src/a.ts'' \<in> set (sourceFilesOf env_unreadable) \<and>
   readFileSync env_unreadable ''/proj/src/a.ts'' = None \<and>
   indexOf noImports env_unreadable = [] \<and>
   fst (findUnusedFiles noImports env_unreadable) =
     [\<lparr> path = ''/proj/src/a.ts'', size' = 10, type' = Util \<rparr>]"
  by code_simp

text \<open>
  Claim C4, amended. A public asset outside the always-used list counts as used exactly
  when the content of some record of the index contains its full base name, extension
  included; when its stat succeeds, the third loop reports it exactly when it does not
  count as used.
\<close>

theorem public_asset_full_name:
  "(contentMentions (basename f) m \<longleftrightarrow>
      (\<exists>(k, info) \<in> set m. includesStr (content info) (basename f))) \<and>
   (f \<in> set (publicFilesOf e) \<and> \<not> alwaysUsedAsset (basename f) \<and> statSync e f \<noteq> None \<longrightarrow>
      (f \<in> path ` set (unusedPublic (statSync e) (indexOf fi e) (publicFilesOf e)) \<longleftrightarrow>
         \<not> contentMentions (basename f) (indexOf fi e)))"
  by (simp add: contentMentions_iff unusedPublic_paths)

theorem public_asset_full_name_witness:
  "''/proj/public/logo.png'' \<in>
     path ` set (unusedPublic (statSync env_app) (indexOf noImports env_app)
                   (publicFilesOf env_app)) \<and>
   \<not> (\<exists>(k, info) \<in> set (indexOf noImports env_app).
         includesStr (content info) (basename ''/proj/public/logo.png''))"
proof -
  have h: "''/proj/public/logo.png'' \<in> set (publicFilesOf env_app) \<and>
           \<not> alwaysUsedAsset (basename ''/proj/public/logo.png'') \<and>
           statSync env_app ''/proj/public/logo.png'' \<noteq> None"
    by code_simp
  have n: "\<not> contentMentions (basename ''/proj/public/logo.png'') (indexOf noImports env_app)"
    by code_simp
  from public_asset_full_name[of "''/proj/public/logo.png''" "indexOf noImports env_app"
        env_app noImports] h n
  show ?thesis by blast
qed

text \<open>
  The claim C4 as stated fails: \<open>App.tsx\<close> contains \<open>logo\<close>, the base name of
  \<open>logo.png\<close> without its extension, and still \<open>logo.png\<close> does not count as used and
  is reported.
\<close>

theorem public_asset_stripped_name_unused:
  "''/proj/public/logo.png'' \<in> set (publicFilesOf env_app) \<and>
   \<not> alwaysUsedAsset (basename ''/proj/public/logo.png'') \<and>
   map (\<lambda>(k, i). (k, content i)) (indexOf noImports env_app) =
     [(''/proj/src/App.tsx'', ''import Button from ./Button; logo''),
      (''/proj/src/segment_tree.ts'', ''export {}'')] \<and>
   includesStr ''import Button from ./Button; logo''
     (basename_ext ''/proj/public/logo.png'' (extname ''/proj/public/logo.png'')) \<and>
   \<not> contentMentions (basename ''/proj/public/logo.png'') (indexOf noImports env_app) \<and>
   \<lparr> path = ''/proj/public/logo.png'', size' = 10, type' = Media \<rparr>
     \<in> set (fst (findUnusedFiles noImports env_app))"
  by code_simp

text \<open>
  Claim C5, amended. The third loop never reports a public file named \<open>robots.txt\<close> or
  \<open>sitemap.xml\<close>, nor one whose name contains \<open>segment_\<close> or ends in \<open>.m4s\<close>; and no
  file of the whole report is named \<open>robots.txt\<close> or \<open>sitemap.xml\<close> or has a name that
  ends in \<open>.m4s\<close>.
\<close>

theorem always_used_names:
  "(\<forall>u \<in> set (unusedPublic (statSync e) (indexOf fi e) (publicFilesOf e)).
      basename (path u) \<noteq> ''robots.txt'' \<and> basename (path u) \<noteq> ''sitemap.xml'' \<and>
      \<not> includesStr (basename (path u)) ''segment_'' \<and>
      \<not> endsWith (basename (path u)) ''.m4s'') \<and>
   (\<forall>u \<in> set (fst (findUnusedFiles fi e)).
      basename (path u) \<noteq> ''robots.txt'' \<and> basename (path u) \<noteq> ''sitemap.xml'' \<and>
      \<not> endsWith (basename (path u)) ''.m4s'')"
proof (rule conjI)
  show "\<forall>u \<in> set (unusedPublic (statSync e) (indexOf fi e) (publicFilesOf e)).
      basename (path u) \<noteq> ''robots.txt'' \<and> basename (path u) \<noteq> ''sitemap.xml'' \<and>
      \<not> includesStr (basename (path u)) ''segment_'' \<and>
      \<not> endsWith (basename (path u)) ''.m4s''"
  proof (rule ballI)
    fix u assume "u \<in> set (unusedPublic (statSync e) (indexOf fi e) (publicFilesOf e))"
    then have "\<not> alwaysUsedAsset (basename (path u))"
      by (simp add: unusedPublic_iff)
    then show "basename (path u) \<noteq> ''robots.txt'' \<and> basename (path u) \<noteq> ''sitemap.xml'' \<and>
        \<not> includesStr (basename (path u)) ''segment_'' \<and>
        \<not> endsWith (basename (path u)) ''.m4s''"
      by (simp add: alwaysUsedAsset_def)
  qed
next
  show "\<forall>u \<in> set (fst (findUnusedFiles fi e)).
      basename (path u) \<noteq> ''robots.txt'' \<and> basename (path u) \<noteq> ''sitemap.xml'' \<and>
      \<not> endsWith (basename (path u)) ''.m4s''"
  proof (rule ballI)
    fix u assume "u \<in> set (fst (findUnusedFiles fi e))"
    then consider
        "u \<in> set (unusedSources (statSync e) (indexOf fi e) (sourceFilesOf e))"
      | "u \<in> set (unusedPublic (statSync e) (indexOf fi e) (publicFilesOf e))"
      by (auto simp: findUnusedFiles_def Let_def)
    then show "basename (path u) \<noteq> ''robots.txt'' \<and> basename (path u) \<noteq> ''sitemap.xml'' \<and>
        \<not> endsWith (basename (path u)) ''.m4s''"
    proof cases
      case 1
      then have "path u \<in> set (sourceFilesOf e)" by (simp add: unusedSources_iff)
      then have "toLowerCase (extname (path u)) \<in> set codeExtensions"
        by (rule sourceFilesOf_ext)
      then show ?thesis by (rule code_ext_names)
    next
      case 2
      then have "\<not> alwaysUsedAsset (basename (path u))"
        by (simp add: unusedPublic_iff)
      then show ?thesis by (simp add: alwaysUsedAsset_def)
    qed
  qed
qed

theorem always_used_names_witness:
  "\<lparr> path = ''/proj/public/logo.png'', size' = 10, type' = Media \<rparr>
     \<in> set (unusedPublic (statSync env_app) (indexOf noImports env_app)
                (publicFilesOf env_app)) \<and>
   \<not> includesStr (basename ''/proj/public/logo.png'') ''segment_'' \<and>
   \<lparr> path = ''/proj/src/App.tsx'', size' = 10, type' = Component \<rparr>
     \<in> set (fst (findUnusedFiles noImports env_app)) \<and>
   basename ''/proj/src/App.tsx'' \<noteq> ''robots.txt''"
proof -
  let ?u = "\<lparr> path = ''/proj/public/logo.png'', size' = 10, type' = Media \<rparr>"
  let ?v = "\<lparr> path = ''/proj/src/App.tsx'', size' = 10, type' = Component \<rparr>"
  have 1: "?u \<in> set (unusedPublic (statSync env_app) (indexOf noImports env_app)
                        (publicFilesOf env_app))"
    by code_simp
  have 2: "?v \<in> set (fst (findUnusedFiles noImports env_app))"
    by code_simp
  have a: "\<not> includesStr (basename (path ?u)) ''segment_''"
    using always_used_names[of env_app noImports, THEN conjunct1, THEN bspec, OF 1]
    by (elim conjE)
  have b: "basename (path ?v) \<noteq> ''robots.txt''"
    using always_used_names[of env_app noImports, THEN conjunct2, THEN bspec, OF 2]
    by (elim conjE)
  from a have a': "\<not> includesStr (basename ''/proj/public/logo.png'') ''segment_''"
    by simp
  from b have b': "basename ''/proj/src/App.tsx'' \<noteq> ''robots.txt''"
    by simp
  from 1 a' 2 b' show ?thesis by (intro conjI)
qed

text \<open>
  The claim C5 as stated fails: the source file \<open>segment_tree.ts\<close> has a name that
  contains \<open>segment_\<close>, and it is reported.
\<close>

theorem segment_source_file_reported:
  "includesStr (basename ''/proj/src/segment_tree.ts'') ''segment_'' \<and>
   \<lparr> path = ''/proj/src/segment_tree.ts'', size' = 10, type' = Util \<rparr>
     \<in> set (fst (findUnusedFiles noImports env_app))"
  by code_simp

end
